theory Spec2Isabelle
  imports Main
begin

section \<open>Values, documents and run-time errors\<close>

text \<open>
  The compilers build plain JavaScript values. A value is one of the usual JSON forms or
  \<open>undefined\<close>. Numbers are never inspected by the compilers, so their representation is
  the type parameter \<open>'n\<close>. An object value is the list of its own properties in
  enumeration order. Values are plain data: an object value has writable data properties
  only and the built-in \<open>Object.prototype\<close> as its prototype, an array value the built-in
  \<open>Array.prototype\<close>; the built-in prototypes are in their initial state.
\<close>

datatype 'n jval =
    JUndefined
  | JNull
  | JBool bool
  | JNum 'n
  | JStr string
  | JArr "'n jval list"
  | JObj "(string \<times> 'n jval) list"

text \<open>
  The only exception the code under study can raise is the \<open>TypeError\<close> of the language
  itself, for reading a property of \<open>undefined\<close>.
\<close>

datatype error = TypeError


text \<open>
  Conversion of \<open>undefined\<close> or a string to a string, as done for a computed property
  key and inside a template literal.
\<close>

fun toString :: "string option \<Rightarrow> string" where
  "toString None = ''undefined''"
| "toString (Some s) = s"

section \<open>Objects under construction\<close>

text \<open>
  The update and the projection compiler build their result by assigning properties to
  an object that starts as \<open>{}\<close>. Two rules of the language show in what they return.

  The first is the order of enumeration: the own keys that are array indices come first,
  by ascending number, then the other keys in the order of their creation. An array index
  is a key that is the decimal numeral, without a sign or leading zeros, of a number below
  \<open>2\<^sup>3\<^sup>2 - 1\<close>.
\<close>

definition digit :: "char \<Rightarrow> nat option" where
  "digit c =
     map_of [(CHR ''0'', 0), (CHR ''1'', 1), (CHR ''2'', 2), (CHR ''3'', 3), (CHR ''4'', 4),
             (CHR ''5'', 5), (CHR ''6'', 6), (CHR ''7'', 7), (CHR ''8'', 8), (CHR ''9'', 9)] c"

fun decimal :: "nat \<Rightarrow> string \<Rightarrow> nat option" where
  "decimal n [] = Some n"
| "decimal n (c # cs) = (case digit c of None \<Rightarrow> None | Some d \<Rightarrow> decimal (10 * n + d) cs)"

definition array_index :: "string \<Rightarrow> nat option" where
  "array_index k =
     (if k = [] \<or> (hd k = CHR ''0'' \<and> tl k \<noteq> []) then None
      else (case decimal 0 k of
              None \<Rightarrow> None
            | Some n \<Rightarrow> if n < 4294967295 then Some n else None))"

text \<open>\<open>enum_before k k'\<close>: a key \<open>k\<close> created earlier than \<open>k'\<close> is also enumerated earlier.\<close>

definition enum_before :: "string \<Rightarrow> string \<Rightarrow> bool" where
  "enum_before k k' =
     (case array_index k' of
        None \<Rightarrow> True
      | Some j \<Rightarrow> (case array_index k of None \<Rightarrow> False | Some i \<Rightarrow> i < j))"

text \<open>
  A new own property takes its place in the enumeration: an array index goes before the
  first key that is a greater index or no index, any other key goes last.
\<close>

fun insert_index :: "nat \<Rightarrow> string \<times> 'a \<Rightarrow> (string \<times> 'a) list \<Rightarrow> (string \<times> 'a) list" where
  "insert_index i kv [] = [kv]"
| "insert_index i kv ((k', v') # kvs) =
     (case array_index k' of
        None \<Rightarrow> kv # (k', v') # kvs
      | Some j \<Rightarrow> if j < i then (k', v') # insert_index i kv kvs else kv # (k', v') # kvs)"

definition prop_insert :: "(string \<times> 'a) list \<Rightarrow> string \<Rightarrow> 'a \<Rightarrow> (string \<times> 'a) list" where
  "prop_insert kvs k v =
     (case array_index k of None \<Rightarrow> kvs @ [(k, v)] | Some i \<Rightarrow> insert_index i (k, v) kvs)"

text \<open>An own property that exists keeps its place and gets the new value.\<close>

fun replace_value :: "(string \<times> 'a) list \<Rightarrow> string \<Rightarrow> 'a \<Rightarrow> (string \<times> 'a) list" where
  "replace_value [] k v = []"
| "replace_value ((k', v') # kvs) k v =
     (if k' = k then (k, v) # kvs else (k', v') # replace_value kvs k v)"

definition own_set :: "(string \<times> 'a) list \<Rightarrow> string \<Rightarrow> 'a \<Rightarrow> (string \<times> 'a) list" where
  "own_set kvs k v =
     (if k \<in> fst ` set kvs then replace_value kvs k v else prop_insert kvs k v)"

text \<open>
  The second rule is that \<open>obj[k] = v\<close> looks \<open>k\<close> up along the prototype chain first. On
  \<open>Object.prototype\<close> the key \<open>__proto__\<close> is an accessor: its setter makes \<open>v\<close> the
  prototype of \<open>obj\<close> when \<open>v\<close> is an object or \<open>null\<close>, does nothing otherwise, and in
  neither case gives \<open>obj\<close> an own property. Every other property that plain data or the
  built-in prototypes offer along the chain is a writable data property, and the
  assignment then defines an own property of \<open>obj\<close>. So an object under construction is
  its own properties together with its prototype.
\<close>

datatype 'n proto = ObjectPrototype | NullPrototype | ValuePrototype "'n jval"

datatype 'n obj = Obj (props: "(string \<times> 'n jval) list") (proto: "'n proto")

definition empty_obj :: "'n obj" where
  "empty_obj = Obj [] ObjectPrototype"

text \<open>
  Whether the setter of \<open>__proto__\<close> is what the lookup finds in the chain, for an object
  with no own property of that name: not below a \<open>null\<close> prototype, and not when the
  prototype is an object value with an own \<open>__proto__\<close> data property.
\<close>

fun finds_proto_setter :: "'n proto \<Rightarrow> bool" where
  "finds_proto_setter ObjectPrototype = True"
| "finds_proto_setter NullPrototype = False"
| "finds_proto_setter (ValuePrototype (JObj kvs)) = (''__proto__'' \<notin> fst ` set kvs)"
| "finds_proto_setter (ValuePrototype other) = True"

text \<open>The setter of \<open>__proto__\<close>, called on the object with the value \<open>v\<close>.\<close>

fun proto_setter :: "'n obj \<Rightarrow> 'n jval \<Rightarrow> 'n obj" where
  "proto_setter (Obj kvs pr) JNull = Obj kvs NullPrototype"
| "proto_setter (Obj kvs pr) (JObj x) = Obj kvs (ValuePrototype (JObj x))"
| "proto_setter (Obj kvs pr) (JArr x) = Obj kvs (ValuePrototype (JArr x))"
| "proto_setter (Obj kvs pr) other = Obj kvs pr"

text \<open>The assignment \<open>obj[k] = v\<close>.\<close>

definition assign :: "'n obj \<Rightarrow> string \<Rightarrow> 'n jval \<Rightarrow> 'n obj" where
  "assign obj k v =
     (if k \<in> fst ` set (props obj) then Obj (replace_value (props obj) k v) (proto obj)
      else if k = ''__proto__'' \<and> finds_proto_setter (proto obj) then proto_setter obj v
      else Obj (prop_insert (props obj) k v) (proto obj))"

section \<open>Column references (column.ts)\<close>

text \<open>
  \<open>Column<T> = { __type?: T; path: string }\<close>. The phantom \<open>__type\<close> is never present at
  run time. The declared type of \<open>path\<close> is \<open>string\<close>; \<open>select\<close> documents what it does
  when the path of an entry is \<open>undefined\<close>, so the field is optional here, \<open>None\<close>
  standing for \<open>undefined\<close>.
\<close>

datatype column = Column (path: "string option")

definition column :: "string \<Rightarrow> column" where
  "column p = Column (Some p)"

text \<open>The computed property key \<open>[col.path]\<close>; an undefined path gives the key \<open>undefined\<close>.\<close>

definition col_key :: "column \<Rightarrow> string" where
  "col_key c = toString (path c)"

section \<open>Expression nodes (expr.ts)\<close>

text \<open>
  A node is an object with a \<open>kind\<close> tag and the properties of the union's members:
  \<open>col\<close> and \<open>val\<close> for the comparisons, \<open>exprs\<close> for the compounds. A property that the
  object does not have reads as \<open>undefined\<close>: \<open>None\<close> for \<open>col\<close> and \<open>exprs\<close>,
  \<open>JUndefined\<close> for \<open>val\<close>. The tag is a string, so that nodes outside the declared
  union, which the compiler's documentation mentions, are values of the type as well.
\<close>

datatype 'n expr =
  Expr (kind: string) (col: "column option") (val: "'n jval") (exprs: "'n expr list option")

text \<open>
  The eight constructors. \<open>eq\<close>, \<open>and\<close> and \<open>or\<close> carry a suffix, their names being taken
  in the logic.
\<close>

definition eq_expr :: "column \<Rightarrow> 'n jval \<Rightarrow> 'n expr" where
  "eq_expr c v = Expr ''eq'' (Some c) v None"

definition gt :: "column \<Rightarrow> 'n jval \<Rightarrow> 'n expr" where
  "gt c v = Expr ''gt'' (Some c) v None"

definition gte :: "column \<Rightarrow> 'n jval \<Rightarrow> 'n expr" where
  "gte c v = Expr ''gte'' (Some c) v None"

definition lt :: "column \<Rightarrow> 'n jval \<Rightarrow> 'n expr" where
  "lt c v = Expr ''lt'' (Some c) v None"

definition lte :: "column \<Rightarrow> 'n jval \<Rightarrow> 'n expr" where
  "lte c v = Expr ''lte'' (Some c) v None"

definition inArray :: "column \<Rightarrow> 'n jval list \<Rightarrow> 'n expr" where
  "inArray c vs = Expr ''in'' (Some c) (JArr vs) None"

definition and_expr :: "'n expr list \<Rightarrow> 'n expr" where
  "and_expr es = Expr ''and'' None JUndefined (Some es)"

definition or_expr :: "'n expr list \<Rightarrow> 'n expr" where
  "or_expr es = Expr ''or'' None JUndefined (Some es)"

text \<open>
  The nodes of the declared union \<open>Expr\<close>, as far as the compiler reads them: a comparison
  has its column, a compound has its array of children, each of them in the union.
\<close>

fun well_formed :: "'n expr \<Rightarrow> bool" where
  "well_formed (Expr k c v es) =
     (if k \<in> {''eq'', ''gt'', ''gte'', ''lt'', ''lte'', ''in''} then c \<noteq> None
      else if k \<in> {''and'', ''or''}
        then (case es of None \<Rightarrow> False | Some xs \<Rightarrow> list_all well_formed xs)
      else False)"

section \<open>The match compiler (compile.ts)\<close>

text \<open>
  \<open>{ [expr.col.path]: body }\<close>: reading \<open>.path\<close> of an undefined \<open>col\<close> throws, an
  undefined path becomes the key \<open>undefined\<close>.
\<close>

fun keyed :: "column option \<Rightarrow> 'n jval \<Rightarrow> error + 'n jval" where
  "keyed None body = Inl TypeError"
| "keyed (Some c) body = Inr (JObj [(col_key c, body)])"

text \<open>
  \<open>{ $and: mapped }\<close>, where \<open>mapped\<close> is the outcome of \<open>expr.exprs.map(compileMatch)\<close>:
  calling \<open>.map\<close> on an undefined \<open>exprs\<close> throws, and so does the whole expression when a
  call of the callback throws.
\<close>

fun compound :: "string \<Rightarrow> (error + 'n jval list) option \<Rightarrow> error + 'n jval" where
  "compound opr None = Inl TypeError"
| "compound opr (Some (Inl e)) = Inl e"
| "compound opr (Some (Inr ds)) = Inr (JObj [(opr, JArr ds)])"

text \<open>
  The \<open>switch\<close> on \<open>expr.kind\<close>, case by case in the order of the source. When no case
  matches, control reaches the end of the function, which returns \<open>undefined\<close>.
  \<open>map_compileMatch\<close> is \<open>Array.prototype.map\<close> with \<open>compileMatch\<close> as its callback: the
  children are compiled from left to right and the first exception ends the call.
\<close>

fun compileMatch :: "'n expr \<Rightarrow> error + 'n jval"
  and map_compileMatch :: "'n expr list \<Rightarrow> error + 'n jval list" where
  "compileMatch (Expr k c v es) =
     (if k = ''eq'' then keyed c v
      else if k = ''gt'' then keyed c (JObj [(''$gt'', v)])
      else if k = ''gte'' then keyed c (JObj [(''$gte'', v)])
      else if k = ''lt'' then keyed c (JObj [(''$lt'', v)])
      else if k = ''lte'' then keyed c (JObj [(''$lte'', v)])
      else if k = ''in'' then keyed c (JObj [(''$in'', v)])
      else if k = ''and'' then compound ''$and'' (map_option map_compileMatch es)
      else if k = ''or'' then compound ''$or'' (map_option map_compileMatch es)
      else Inr JUndefined)"
| "map_compileMatch [] = Inr []"
| "map_compileMatch (x # xs) =
     (case compileMatch x of
        Inl e \<Rightarrow> Inl e
      | Inr d \<Rightarrow> (case map_compileMatch xs of Inl e \<Rightarrow> Inl e | Inr ds \<Rightarrow> Inr (d # ds)))"

section \<open>The update compiler (update.ts)\<close>

text \<open>
  An update node is an object with the properties \<open>kind\<close>, \<open>col\<close> and \<open>val\<close>, read the
  same way as those of an expression node.
\<close>

datatype 'n update =
  Update (upd_kind: string) (upd_col: "column option") (upd_val: "'n jval")

definition set_upd :: "column \<Rightarrow> 'n jval \<Rightarrow> 'n update" where
  "set_upd c v = Update ''set'' (Some c) v"


text \<open>
  The local accumulator \<open>u\<close> starts as \<open>{}\<close> and only ever receives the own properties
  \<open>$set\<close> and \<open>$inc\<close>, each holding an object under construction: it is a list of named
  groups.
\<close>

type_synonym 'n groups = "(string \<times> 'n obj) list"

text \<open>\<open>u.$g ??= {}\<close>: the group is created, empty, unless \<open>u\<close> has it already.\<close>

definition ensure_group :: "string \<Rightarrow> 'n groups \<Rightarrow> 'n groups" where
  "ensure_group g u = (case map_of u g of None \<Rightarrow> own_set u g empty_obj | Some grp \<Rightarrow> u)"

text \<open>
  \<open>u.$g[upd.col.path] = upd.val\<close>: the group object is read, then the key (which throws
  when \<open>col\<close> is undefined), then the assignment is made to the group. Assigning to a
  property of an undefined group would throw.
\<close>

definition assign_in_group ::
  "string \<Rightarrow> column option \<Rightarrow> 'n jval \<Rightarrow> 'n groups \<Rightarrow> error + 'n groups" where
  "assign_in_group g c v u =
     (case map_of u g of
        None \<Rightarrow> Inl TypeError
      | Some grp \<Rightarrow>
          (case c of
             None \<Rightarrow> Inl TypeError
           | Some cl \<Rightarrow> Inr (own_set u g (assign grp (col_key cl) v))))"

text \<open>The body of the loop: two \<open>if\<close> statements, one after the other.\<close>

definition update_step :: "'n groups \<Rightarrow> 'n update \<Rightarrow> error + 'n groups" where
  "update_step u upd =
     (case (if upd_kind upd = ''set''
            then assign_in_group ''$set'' (upd_col upd) (upd_val upd) (ensure_group ''$set'' u)
            else Inr u) of
        Inl e \<Rightarrow> Inl e
      | Inr u1 \<Rightarrow>
          (if upd_kind upd = ''inc''
           then assign_in_group ''$inc'' (upd_col upd) (upd_val upd) (ensure_group ''$inc'' u1)
           else Inr u1))"

text \<open>\<open>for (const upd of updates) { ... }\<close>: an exception leaves the loop and the function.\<close>

fun update_loop :: "'n groups \<Rightarrow> 'n update list \<Rightarrow> error + 'n groups" where
  "update_loop u [] = Inr u"
| "update_loop u (upd # updates) =
     (case update_step u upd of Inl e \<Rightarrow> Inl e | Inr u' \<Rightarrow> update_loop u' updates)"

text \<open>
  The accumulator as the document that is returned: the own properties of \<open>u\<close> and of
  its groups. The prototype of a group, which only an assignment to \<open>__proto__\<close> changes,
  is not part of the document.
\<close>

definition groups_doc :: "'n groups \<Rightarrow> 'n jval" where
  "groups_doc u = JObj (map (\<lambda>(g, grp). (g, JObj (props grp))) u)"

definition compileUpdate :: "'n update list \<Rightarrow> error + 'n jval" where
  "compileUpdate updates =
     (case update_loop [] updates of Inl e \<Rightarrow> Inl e | Inr u \<Rightarrow> Inr (groups_doc u))"

section \<open>The projection compiler (select.ts)\<close>

text \<open>
  The shape is an object whose property values are columns; the optional chaining of the
  source allows for a value that is \<open>undefined\<close>, here \<open>None\<close>. \<open>shape[k]?.path\<close> is
  \<open>undefined\<close> when \<open>shape[k]\<close> is, and the path of the column otherwise.
\<close>

type_synonym shape = "(string \<times> column option) list"

fun optional_path :: "column option option \<Rightarrow> string option" where
  "optional_path (Some (Some c)) = path c"
| "optional_path other = None"

text \<open>
  \<open>for (const k in shape) projection[k] = `$${shape[k]?.path}`\<close>, over the keys of the
  shape in enumeration order, starting from \<open>{}\<close>. Nothing in the loop can throw. The
  document returned is the own properties of \<open>projection\<close>.
\<close>

definition select_step :: "shape \<Rightarrow> string \<Rightarrow> 'n obj \<Rightarrow> 'n obj" where
  "select_step shape k projection =
     assign projection k (JStr (''$'' @ toString (optional_path (map_of shape k))))"

definition select :: "shape \<Rightarrow> 'n jval" where
  "select shape = JObj (props (fold (select_step shape) (map fst shape) empty_obj))"

section \<open>The path accessor (defineSchema)\<close>

text \<open>
  A proxy made by \<open>make\<close> is an empty target and a handler closed over \<open>path\<close>; that
  string is all the state it has. The \<open>get\<close> trap computes \<open>next\<close> and returns
  \<open>make(next)\<close>; it assigns to nothing.
\<close>

datatype accessor = Proxy (closure_path: string)

definition make :: "string \<Rightarrow> accessor" where
  "make p = Proxy p"

fun get :: "accessor \<Rightarrow> string \<Rightarrow> accessor" where
  "get (Proxy p) key = (let next = (if p \<noteq> [] then p @ ''.'' @ key else key) in make next)"

definition defineSchema :: accessor where
  "defineSchema = make []"

text \<open>
  Modelled from the spec: the extraction step that reads the accumulated path of an
  accessor. The source has no such function; its documentation calls it \<open>extractPath\<close>
  and says that it takes the path from the closure.
\<close>

definition extractPath :: "accessor \<Rightarrow> string" where
  "extractPath a = closure_path a"

section \<open>Properties of the match compiler\<close>

text \<open>
  Claim C1. For every column path \<open>p\<close> and value \<open>v\<close>: an \<open>eq\<close> node compiles to
  \<open>{p: v}\<close>, whatever the value (\<open>null\<close> included); a node of kind \<open>k\<close> among \<open>gt\<close>,
  \<open>gte\<close>, \<open>lt\<close>, \<open>lte\<close> compiles to \<open>{p: {"$" + k: v}}\<close>, be it built by its constructor
  or written as an object; \<open>inArray\<close> compiles to \<open>{p: {$in: vals}}\<close> with \<open>vals\<close> as given,
  in the same order.
\<close>

theorem compileMatch_comparison_shapes:
  "compileMatch (eq_expr (column p) v) = Inr (JObj [(p, v)])
   \<and> compileMatch (gt (column p) v) = Inr (JObj [(p, JObj [(''$gt'', v)])])
   \<and> compileMatch (gte (column p) v) = Inr (JObj [(p, JObj [(''$gte'', v)])])
   \<and> compileMatch (lt (column p) v) = Inr (JObj [(p, JObj [(''$lt'', v)])])
   \<and> compileMatch (lte (column p) v) = Inr (JObj [(p, JObj [(''$lte'', v)])])
   \<and> (\<forall>k \<in> {''gt'', ''gte'', ''lt'', ''lte''}.
         compileMatch (Expr k (Some (column p)) v None) = Inr (JObj [(p, JObj [(''$'' @ k, v)])]))
   \<and> compileMatch (inArray (column p) vals) = Inr (JObj [(p, JObj [(''$in'', JArr vals)])])"
  by (simp add: eq_expr_def gt_def gte_def lt_def lte_def inArray_def column_def col_key_def)

theorem compileMatch_comparison_shapes_witness:
  "''gte'' \<in> {''gt'', ''gte'', ''lt'', ''lte''}
   \<and> compileMatch (Expr ''gte'' (Some (column ''age'')) (JNum (18::int)) None)
       = Inr (JObj [(''age'', JObj [(''$gte'', JNum 18)])])"
proof -
  have k: "''gte'' \<in> {''gt'', ''gte'', ''lt'', ''lte''}"
    by simp
  from compileMatch_comparison_shapes [of "''age''" "JNum (18::int)" "[]"]
  have "\<forall>k \<in> {''gt'', ''gte'', ''lt'', ''lte''}.
          compileMatch (Expr k (Some (column ''age'')) (JNum (18::int)) None)
          = Inr (JObj [(''age'', JObj [(''$'' @ k, JNum 18)])])"
    by blast
  from bspec [OF this k] k show ?thesis
    by simp
qed

lemma compileMatch_and_expr:
  "compileMatch (and_expr es) =
     (case map_compileMatch es of Inl e \<Rightarrow> Inl e | Inr ds \<Rightarrow> Inr (JObj [(''$and'', JArr ds)]))"
  by (simp add: and_expr_def split: sum.splits)

lemma compileMatch_or_expr:
  "compileMatch (or_expr es) =
     (case map_compileMatch es of Inl e \<Rightarrow> Inl e | Inr ds \<Rightarrow> Inr (JObj [(''$or'', JArr ds)]))"
  by (simp add: or_expr_def split: sum.splits)

text \<open>
  The documents of the children, for any number of them: one per child, in the order of
  the children.
\<close>

lemma map_compileMatch_length:
  "map_compileMatch es = Inr ds \<Longrightarrow> length ds = length es"
  by (induction es arbitrary: ds) (auto split: sum.splits)

lemma map_compileMatch_nth:
  "map_compileMatch es = Inr ds \<Longrightarrow> i < length es \<Longrightarrow> compileMatch (es ! i) = Inr (ds ! i)"
proof (induction es arbitrary: ds i)
  case Nil
  then show ?case by simp
next
  case (Cons e es)
  then show ?case by (cases i) (auto split: sum.splits)
qed

text \<open>Every node of the union compiles: the compiler returns a value and does not raise.\<close>

lemma well_formed_compiles:
  fixes e :: "'n expr" and es :: "'n expr list"
  shows "well_formed e \<Longrightarrow> \<exists>d. compileMatch e = Inr d"
    and "list_all well_formed es \<Longrightarrow> \<exists>ds. map_compileMatch es = Inr ds"
proof (induction e and es rule: compileMatch_map_compileMatch.induct)
  case (1 k c v es)
  show ?case
  proof (cases "k = ''and'' \<or> k = ''or''")
    case True
    with "1.prems" obtain xs where es: "es = Some xs" and xs: "list_all well_formed xs"
      by (auto split: option.splits)
    have "\<exists>ds. map_compileMatch xs = Inr ds"
    proof (cases "k = ''and''")
      case True
      with "1.IH"(1) [of xs] es xs show ?thesis
        by simp
    next
      case False
      with \<open>k = ''and'' \<or> k = ''or''\<close> have "k = ''or''"
        by simp
      with "1.IH"(2) [of xs] es xs show ?thesis
        by simp
    qed
    with True es show ?thesis
      by auto
  next
    case False
    with "1.prems" obtain cl where "c = Some cl"
      by (cases c) (auto split: if_splits)
    with False "1.prems" show ?thesis
      by (auto split: if_splits)
  qed
next
  case 2
  then show ?case
    by simp
next
  case (3 x xs)
  from "3.prems" "3.IH"(1) obtain d where d: "compileMatch x = Inr d"
    by auto
  with "3.prems" "3.IH"(2) obtain ds where "map_compileMatch xs = Inr ds"
    by auto
  with d show ?case
    by simp
qed

text \<open>
  Claim C2. \<open>and(e1, e2)\<close> compiles to \<open>{$and: [d1, d2]}\<close>, where \<open>d1\<close> and \<open>d2\<close> are what
  \<open>e1\<close> and \<open>e2\<close> compile to, in that order, and an exception raised by a child is raised
  by the parent; likewise \<open>or\<close> and \<open>$or\<close>. \<open>and(and(e1, e2), e3)\<close> compiles to an array of
  two elements, the first of which is the inner \<open>$and\<close> document, and never to an array of
  three. When the children are nodes of the union, they and the compound do compile, each
  to a document. For the comparisons of the specification's scenarios the documents are
  \<open>{$and: [{p: {$gte: v}}, {q: {$lt: w}}]}\<close> and \<open>{$or: [{p: v}, {q: {$gt: w}}]}\<close>.
\<close>

theorem compileMatch_compound_nested:
  "compileMatch (and_expr [e1, e2]) =
     (case compileMatch e1 of
        Inl err \<Rightarrow> Inl err
      | Inr d1 \<Rightarrow>
          (case compileMatch e2 of
             Inl err \<Rightarrow> Inl err
           | Inr d2 \<Rightarrow> Inr (JObj [(''$and'', JArr [d1, d2])])))
   \<and> compileMatch (or_expr [e1, e2]) =
     (case compileMatch e1 of
        Inl err \<Rightarrow> Inl err
      | Inr d1 \<Rightarrow>
          (case compileMatch e2 of
             Inl err \<Rightarrow> Inl err
           | Inr d2 \<Rightarrow> Inr (JObj [(''$or'', JArr [d1, d2])])))
   \<and> compileMatch (and_expr [and_expr [e1, e2], e3]) =
     (case compileMatch e1 of
        Inl err \<Rightarrow> Inl err
      | Inr d1 \<Rightarrow>
          (case compileMatch e2 of
             Inl err \<Rightarrow> Inl err
           | Inr d2 \<Rightarrow>
               (case compileMatch e3 of
                  Inl err \<Rightarrow> Inl err
                | Inr d3 \<Rightarrow>
                    Inr (JObj [(''$and'', JArr [JObj [(''$and'', JArr [d1, d2])], d3])]))))
   \<and> (\<forall>d1 d2 d3. compileMatch (and_expr [and_expr [e1, e2], e3])
         \<noteq> Inr (JObj [(''$and'', JArr [d1, d2, d3])]))
   \<and> (well_formed e1 \<and> well_formed e2 \<and> well_formed e3 \<longrightarrow>
        (\<exists>d1 d2 d3.
           compileMatch e1 = Inr d1 \<and> compileMatch e2 = Inr d2 \<and> compileMatch e3 = Inr d3
           \<and> compileMatch (and_expr [e1, e2]) = Inr (JObj [(''$and'', JArr [d1, d2])])
           \<and> compileMatch (or_expr [e1, e2]) = Inr (JObj [(''$or'', JArr [d1, d2])])
           \<and> compileMatch (and_expr [and_expr [e1, e2], e3]) =
               Inr (JObj [(''$and'', JArr [JObj [(''$and'', JArr [d1, d2])], d3])])))
   \<and> compileMatch (and_expr [gte (column p) v, lt (column q) w]) =
       Inr (JObj [(''$and'', JArr [JObj [(p, JObj [(''$gte'', v)])], JObj [(q, JObj [(''$lt'', w)])]])])
   \<and> compileMatch (or_expr [eq_expr (column p) v, gt (column q) w]) =
       Inr (JObj [(''$or'', JArr [JObj [(p, v)], JObj [(q, JObj [(''$gt'', w)])]])])
   \<and> compileMatch (and_expr [and_expr [eq_expr (column p) v, gt (column q) w], lt (column r) x]) =
       Inr (JObj [(''$and'', JArr [JObj [(''$and'', JArr [JObj [(p, v)], JObj [(q, JObj [(''$gt'', w)])]])],
                                   JObj [(r, JObj [(''$lt'', x)])]])])"
proof (intro conjI impI)
  assume "well_formed e1 \<and> well_formed e2 \<and> well_formed e3"
  then obtain d1 d2 d3
    where "compileMatch e1 = Inr d1" and "compileMatch e2 = Inr d2" and "compileMatch e3 = Inr d3"
    using well_formed_compiles(1) [of e1] well_formed_compiles(1) [of e2]
      well_formed_compiles(1) [of e3]
    by auto
  then show "\<exists>d1 d2 d3.
      compileMatch e1 = Inr d1 \<and> compileMatch e2 = Inr d2 \<and> compileMatch e3 = Inr d3
      \<and> compileMatch (and_expr [e1, e2]) = Inr (JObj [(''$and'', JArr [d1, d2])])
      \<and> compileMatch (or_expr [e1, e2]) = Inr (JObj [(''$or'', JArr [d1, d2])])
      \<and> compileMatch (and_expr [and_expr [e1, e2], e3]) =
          Inr (JObj [(''$and'', JArr [JObj [(''$and'', JArr [d1, d2])], d3])])"
    by (simp add: compileMatch_and_expr compileMatch_or_expr)
qed (simp_all add: compileMatch_and_expr compileMatch_or_expr eq_expr_def gt_def gte_def lt_def
    column_def col_key_def split: sum.splits)

theorem compileMatch_compound_nested_witness:
  "well_formed (gte (column ''age'') (JNum (18::int)))
   \<and> well_formed (lt (column ''age'') (JNum (65::int)))
   \<and> well_formed (eq_expr (column ''status'') (JStr ''active'' :: int jval))
   \<and> compileMatch (and_expr [gte (column ''age'') (JNum (18::int)), lt (column ''age'') (JNum 65)]) =
       Inr (JObj [(''$and'', JArr [JObj [(''age'', JObj [(''$gte'', JNum 18)])],
                                   JObj [(''age'', JObj [(''$lt'', JNum 65)])]])])
   \<and> compileMatch (and_expr [and_expr [gte (column ''age'') (JNum (18::int)), lt (column ''age'') (JNum 65)],
                              eq_expr (column ''status'') (JStr ''active'')]) =
       Inr (JObj [(''$and'', JArr [JObj [(''$and'', JArr [JObj [(''age'', JObj [(''$gte'', JNum 18)])],
                                                          JObj [(''age'', JObj [(''$lt'', JNum 65)])]])],
                                   JObj [(''status'', JStr ''active'')]])])"
proof -
  let ?e1 = "gte (column ''age'') (JNum (18::int))"
  let ?e2 = "lt (column ''age'') (JNum (65::int))"
  let ?e3 = "eq_expr (column ''status'') (JStr ''active'' :: int jval)"
  have w: "well_formed ?e1 \<and> well_formed ?e2 \<and> well_formed ?e3"
    by (simp add: gte_def lt_def eq_expr_def)
  have c: "compileMatch ?e1 = Inr (JObj [(''age'', JObj [(''$gte'', JNum 18)])])"
    "compileMatch ?e2 = Inr (JObj [(''age'', JObj [(''$lt'', JNum 65)])])"
    "compileMatch ?e3 = Inr (JObj [(''status'', JStr ''active'')])"
    by (simp_all add: gte_def lt_def eq_expr_def column_def col_key_def)
  from compileMatch_compound_nested [of ?e1 ?e2 ?e3] w
  obtain d1 d2 d3 where "compileMatch ?e1 = Inr d1" and "compileMatch ?e2 = Inr d2"
    and "compileMatch ?e3 = Inr d3"
    and "compileMatch (and_expr [?e1, ?e2]) = Inr (JObj [(''$and'', JArr [d1, d2])])"
    and "compileMatch (and_expr [and_expr [?e1, ?e2], ?e3]) =
          Inr (JObj [(''$and'', JArr [JObj [(''$and'', JArr [d1, d2])], d3])])"
    by blast
  with c w show ?thesis
    by simp
qed

text \<open>
  Claim C10. A compound node without children compiles to its operator key mapped to
  the empty array: \<open>and()\<close> to \<open>{$and: []}\<close> and \<open>or()\<close> to \<open>{$or: []}\<close>.
\<close>

theorem compileMatch_empty_compound:
  "compileMatch (and_expr []) = Inr (JObj [(''$and'', JArr [])])
   \<and> compileMatch (or_expr []) = Inr (JObj [(''$or'', JArr [])])"
  by (simp add: compileMatch_and_expr compileMatch_or_expr)

section \<open>Properties of the update compiler\<close>

lemmas object_defs =
  own_set_def assign_def empty_obj_def prop_insert_def array_index_def digit_def

lemma map_of_replace_value:
  "k \<in> fst ` set kvs \<Longrightarrow> map_of (replace_value kvs k v) = (map_of kvs)(k \<mapsto> v)"
proof
  fix x
  show "k \<in> fst ` set kvs \<Longrightarrow> map_of (replace_value kvs k v) x = ((map_of kvs)(k \<mapsto> v)) x"
    by (induction kvs) force+
qed

lemma map_of_insert_index:
  "k \<notin> fst ` set kvs \<Longrightarrow> map_of (insert_index i (k, v) kvs) = (map_of kvs)(k \<mapsto> v)"
proof
  fix x
  show "k \<notin> fst ` set kvs \<Longrightarrow> map_of (insert_index i (k, v) kvs) x = ((map_of kvs)(k \<mapsto> v)) x"
    by (induction kvs) (auto split: option.splits)
qed

lemma map_of_append_fresh:
  "k \<notin> fst ` set kvs \<Longrightarrow> map_of (kvs @ [(k, v)]) = (map_of kvs)(k \<mapsto> v)"
proof
  fix x
  show "k \<notin> fst ` set kvs \<Longrightarrow> map_of (kvs @ [(k, v)]) x = ((map_of kvs)(k \<mapsto> v)) x"
    by (induction kvs) auto
qed

lemma map_of_prop_insert:
  "k \<notin> fst ` set kvs \<Longrightarrow> map_of (prop_insert kvs k v) = (map_of kvs)(k \<mapsto> v)"
  by (cases "array_index k")
    (simp_all add: prop_insert_def map_of_insert_index map_of_append_fresh del: map_of_append)

lemma map_of_own_set: "map_of (own_set kvs k v) = (map_of kvs)(k \<mapsto> v)"
  by (simp add: own_set_def map_of_replace_value map_of_prop_insert)




lemma update_step_ignored:
  "upd_kind upd \<noteq> ''set'' \<Longrightarrow> upd_kind upd \<noteq> ''inc'' \<Longrightarrow> update_step u upd = Inr u"
  by (simp add: update_step_def)

lemma update_step_no_col:
  "upd_kind upd = ''set'' \<or> upd_kind upd = ''inc'' \<Longrightarrow> upd_col upd = None
   \<Longrightarrow> update_step u upd = Inl TypeError"
  by (auto simp: update_step_def assign_in_group_def ensure_group_def map_of_own_set
      split: option.splits)

lemma assign_in_ensured_group:
  "\<exists>u'. assign_in_group g (Some c) v (ensure_group g u) = Inr u'
     \<and> map_of u' = (map_of u)(g \<mapsto> assign (case map_of u g of None \<Rightarrow> empty_obj | Some grp \<Rightarrow> grp) (col_key c) v)"
  by (auto simp: assign_in_group_def ensure_group_def map_of_own_set split: option.splits)

lemma update_step_assigns:
  assumes "k = ''set'' \<or> k = ''inc''"
  shows "\<exists>u'. update_step u (Update k (Some c) v) = Inr u'
     \<and> map_of u' = (map_of u)(''$'' @ k \<mapsto>
          assign (case map_of u (''$'' @ k) of None \<Rightarrow> empty_obj | Some grp \<Rightarrow> grp) (col_key c) v)"
  using assms assign_in_ensured_group [of "''$set''" c v u] assign_in_ensured_group [of "''$inc''" c v u]
  by (auto simp: update_step_def)

lemma update_loop_append:
  "update_loop u (xs @ ys) =
     (case update_loop u xs of Inl e \<Rightarrow> Inl e | Inr u' \<Rightarrow> update_loop u' ys)"
  by (induction xs arbitrary: u) (auto split: sum.splits)

lemma update_loop_total:
  "(\<forall>x\<in>set us. upd_kind x = ''set'' \<or> upd_kind x = ''inc'' \<longrightarrow> upd_col x \<noteq> None)
   \<Longrightarrow> \<exists>u'. update_loop u us = Inr u'"
proof (induction us arbitrary: u)
  case Nil
  then show ?case by simp
next
  case (Cons x us)
  obtain k c v where x: "x = Update k c v"
    by (cases x)
  show ?case
  proof (cases "k = ''set'' \<or> k = ''inc''")
    case True
    with Cons.prems x obtain cl where "c = Some cl"
      by auto
    with update_step_assigns [OF True, of u cl v] x obtain u1 where "update_step u x = Inr u1"
      by auto
    with Cons show ?thesis
      by simp
  next
    case False
    with x have "update_step u x = Inr u"
      by (simp add: update_step_ignored)
    with Cons show ?thesis
      by simp
  qed
qed

text \<open>What one pass of the loop body does to the groups, as a map.\<close>

lemma update_step_map:
  assumes "update_step u x = Inr u'"
  shows "map_of u' =
     (if upd_kind x = ''set'' \<or> upd_kind x = ''inc''
      then (map_of u)(''$'' @ upd_kind x \<mapsto>
             assign (case map_of u (''$'' @ upd_kind x) of None \<Rightarrow> empty_obj | Some grp \<Rightarrow> grp)
               (col_key (the (upd_col x))) (upd_val x))
      else map_of u)"
proof (cases x)
  case (Update k c v)
  show ?thesis
  proof (cases "k = ''set'' \<or> k = ''inc''")
    case True
    with assms Update obtain cl where c: "c = Some cl"
      using update_step_no_col [of x u] by (cases c) auto
    with update_step_assigns [OF True, of u cl v] assms Update True show ?thesis
      by auto
  next
    case False
    with assms Update show ?thesis
      by (auto simp: update_step_ignored)
  qed
qed

lemma update_loop_other_group:
  assumes "update_loop u us = Inr u'" and "g \<noteq> ''$set''" and "g \<noteq> ''$inc''"
  shows "map_of u' g = map_of u g"
  using assms
proof (induction us arbitrary: u)
  case Nil
  then show ?case by simp
next
  case (Cons x us)
  from Cons.prems(1) obtain u1 where s: "update_step u x = Inr u1" and l: "update_loop u1 us = Inr u'"
    by (auto split: sum.splits)
  from update_step_map [OF s] Cons.prems(2,3) have "map_of u1 g = map_of u g"
    by auto
  with Cons.IH [OF l Cons.prems(2,3)] show ?case
    by simp
qed

lemma update_loop_group_present:
  assumes "update_loop u us = Inr u'" and "k = ''set'' \<or> k = ''inc''"
  shows "map_of u' (''$'' @ k) \<noteq> None
     \<longleftrightarrow> map_of u (''$'' @ k) \<noteq> None \<or> (\<exists>x\<in>set us. upd_kind x = k)"
  using assms
proof (induction us arbitrary: u)
  case Nil
  then show ?case by simp
next
  case (Cons x us)
  from Cons.prems(1) obtain u1 where s: "update_step u x = Inr u1" and l: "update_loop u1 us = Inr u'"
    by (auto split: sum.splits)
  from update_step_map [OF s] Cons.prems(2)
  have "map_of u1 (''$'' @ k) \<noteq> None \<longleftrightarrow> map_of u (''$'' @ k) \<noteq> None \<or> upd_kind x = k"
    by auto
  with Cons.IH [OF l Cons.prems(2)] show ?case
    by auto
qed



text \<open>
  Claim C3 says that a node of an unrecognized kind makes both compilers raise. They do
  not: for the node \<open>{kind: "neq", col: {path: "a"}, val: 1}\<close> the match compiler returns
  \<open>undefined\<close>, and for the one-element sequence \<open>[{kind: "unset", col: {path: "a"},
  val: 1}]\<close> the update compiler returns \<open>{}\<close>.
\<close>

theorem unrecognized_kind_counterexample:
  "compileMatch (Expr ''neq'' (Some (column ''a'')) (JNum (1::int)) None) = Inr JUndefined
   \<and> compileUpdate [Update ''unset'' (Some (column ''a'')) (JNum (1::int))] = Inr (JObj [])"
  by (simp add: compileUpdate_def update_step_def groups_doc_def)

text \<open>
  Claim C3, as the code has it. For every node whose kind is none of the eight, the match
  compiler returns \<open>undefined\<close> without raising; the update compiler skips every node
  whose kind is neither \<open>set\<close> nor \<open>inc\<close>: its outcome is the one for the sequence
  without that node.
\<close>

theorem unrecognized_kind_not_rejected:
  "(kind e \<notin> {''eq'', ''gt'', ''gte'', ''lt'', ''lte'', ''in'', ''and'', ''or''}
      \<longrightarrow> compileMatch e = Inr JUndefined)
   \<and> (upd_kind upd \<notin> {''set'', ''inc''}
      \<longrightarrow> compileUpdate (xs @ upd # ys) = compileUpdate (xs @ ys))"
proof (intro conjI impI)
  assume "kind e \<notin> {''eq'', ''gt'', ''gte'', ''lt'', ''lte'', ''in'', ''and'', ''or''}"
  then show "compileMatch e = Inr JUndefined"
    by (cases e) simp
next
  assume "upd_kind upd \<notin> {''set'', ''inc''}"
  then have "update_step u upd = Inr u" for u :: "'b groups"
    by (simp add: update_step_ignored)
  then have "update_loop [] (xs @ upd # ys) = update_loop [] (xs @ ys)"
    by (simp add: update_loop_append split: sum.splits)
  then show "compileUpdate (xs @ upd # ys) = compileUpdate (xs @ ys)"
    by (simp add: compileUpdate_def)
qed

theorem unrecognized_kind_not_rejected_witness:
  "''between'' \<notin> {''eq'', ''gt'', ''gte'', ''lt'', ''lte'', ''in'', ''and'', ''or''}
   \<and> compileMatch (Expr ''between'' (Some (column ''age'')) (JNum (18::int)) None) = Inr JUndefined
   \<and> ''unset'' \<notin> {''set'', ''inc''}
   \<and> compileUpdate [set_upd (column ''a'') (JNum (1::int)), Update ''unset'' (Some (column ''b'')) JNull]
       = Inr (JObj [(''$set'', JObj [(''a'', JNum 1)])])"
proof -
  have m: "kind (Expr ''between'' (Some (column ''age'')) (JNum (18::int)) None)
      \<notin> {''eq'', ''gt'', ''gte'', ''lt'', ''lte'', ''in'', ''and'', ''or''}"
    by simp
  have u: "upd_kind (Update ''unset'' (Some (column ''b'')) (JNull :: int jval)) \<notin> {''set'', ''inc''}"
    by simp
  have s: "compileUpdate [set_upd (column ''a'') (JNum (1::int))] = Inr (JObj [(''$set'', JObj [(''a'', JNum 1)])])"
    by (simp add: compileUpdate_def update_step_def assign_in_group_def ensure_group_def
        groups_doc_def set_upd_def column_def col_key_def object_defs)
  from unrecognized_kind_not_rejected
    [of "Expr ''between'' (Some (column ''age'')) (JNum (18::int)) None"
        "Update ''unset'' (Some (column ''b'')) (JNull :: int jval)"
        "[set_upd (column ''a'') (JNum (1::int))]" "[]"] m u s
  show ?thesis
    by simp
qed


text \<open>
  At the path \<open>__proto__\<close> the assignment reaches the inherited setter: a scalar value is
  dropped and the group stays as it was, \<open>null\<close> removes the prototype of the group, after
  which the path is an own property like any other.
\<close>

lemma compileUpdate_proto_path:
  "compileUpdate [set_upd (column ''__proto__'') (JNum (1::int))] = Inr (JObj [(''$set'', JObj [])])"
  "compileUpdate [set_upd (column ''a'') (JNum (1::int)), set_upd (column ''__proto__'') (JStr ''x'')]
     = Inr (JObj [(''$set'', JObj [(''a'', JNum 1)])])"
  "compileUpdate [set_upd (column ''__proto__'') JNull, set_upd (column ''__proto__'') (JNum (1::int))]
     = Inr (JObj [(''$set'', JObj [(''__proto__'', JNum 1)])])"
  by (simp_all add: compileUpdate_def update_step_def assign_in_group_def ensure_group_def
      groups_doc_def set_upd_def column_def col_key_def object_defs)



text \<open>
  Claim C5. The empty sequence compiles to \<open>{}\<close>. For a sequence in which every \<open>set\<close>
  and \<open>inc\<close> node has its column, the compiler returns a document that has the key
  \<open>$set\<close> exactly when some node is of kind \<open>set\<close>, the key \<open>$inc\<close> exactly when some node
  is of kind \<open>inc\<close>, and no other key.
\<close>

theorem compileUpdate_groups_present:
  assumes "\<forall>x\<in>set us. upd_kind x = ''set'' \<or> upd_kind x = ''inc'' \<longrightarrow> upd_col x \<noteq> None"
  shows "compileUpdate [] = Inr (JObj [])
     \<and> (\<exists>kvs. compileUpdate us = Inr (JObj kvs)
          \<and> (''$set'' \<in> fst ` set kvs \<longleftrightarrow> (\<exists>x\<in>set us. upd_kind x = ''set''))
          \<and> (''$inc'' \<in> fst ` set kvs \<longleftrightarrow> (\<exists>x\<in>set us. upd_kind x = ''inc''))
          \<and> fst ` set kvs \<subseteq> {''$set'', ''$inc''})"
proof -
  from assms obtain u :: "'a groups" where l: "update_loop [] us = Inr u"
    using update_loop_total [of us "[]"] by auto
  have d: "g \<in> fst ` set u \<longleftrightarrow> map_of u g \<noteq> None" for g
    by (simp add: map_of_eq_None_iff)
  from update_loop_group_present [OF l, of "''set''"]
  have s: "''$set'' \<in> fst ` set u \<longleftrightarrow> (\<exists>x\<in>set us. upd_kind x = ''set'')"
    by (simp add: d)
  from update_loop_group_present [OF l, of "''inc''"]
  have i: "''$inc'' \<in> fst ` set u \<longleftrightarrow> (\<exists>x\<in>set us. upd_kind x = ''inc'')"
    by (simp add: d)
  have o: "fst ` set u \<subseteq> {''$set'', ''$inc''}"
  proof
    fix g assume "g \<in> fst ` set u"
    then have "map_of u g \<noteq> None"
      by (simp add: d)
    with update_loop_other_group [OF l, of g] show "g \<in> {''$set'', ''$inc''}"
      by auto
  qed
  have k: "fst ` set (map (\<lambda>(g, grp). (g, JObj (props grp))) u) = fst ` set u"
    by force
  from l s i o k show ?thesis
    by (simp add: compileUpdate_def groups_doc_def)
qed

theorem compileUpdate_groups_present_witness:
  "compileUpdate ([] :: int update list) = Inr (JObj [])
   \<and> (\<exists>kvs. compileUpdate [set_upd (column ''a'') (JNum (1::int))] = Inr (JObj kvs)
        \<and> ''$set'' \<in> fst ` set kvs \<and> ''$inc'' \<notin> fst ` set kvs)"
proof -
  have wf: "\<forall>x\<in>set [set_upd (column ''a'') (JNum (1::int))].
      upd_kind x = ''set'' \<or> upd_kind x = ''inc'' \<longrightarrow> upd_col x \<noteq> None"
    by (simp add: set_upd_def)
  from compileUpdate_groups_present [OF wf] show ?thesis
    by (auto simp: set_upd_def)
qed

section \<open>Properties of the projection compiler\<close>

lemma insert_index_last:
  "\<forall>k'\<in>fst ` set kvs. \<exists>j. array_index k' = Some j \<and> j < i \<Longrightarrow> insert_index i kv kvs = kvs @ [kv]"
  by (induction kvs) auto

lemma prop_insert_last:
  assumes "\<forall>k'\<in>fst ` set kvs. enum_before k' k"
  shows "prop_insert kvs k v = kvs @ [(k, v)]"
proof (cases "array_index k")
  case None
  then show ?thesis
    by (simp add: prop_insert_def)
next
  case (Some i)
  with assms have "\<forall>k'\<in>fst ` set kvs. \<exists>j. array_index k' = Some j \<and> j < i"
    by (auto simp: enum_before_def split: option.splits)
  with Some show ?thesis
    by (simp add: prop_insert_def insert_index_last)
qed

lemma select_fold_enum:
  assumes "distinct ks" and "set ks \<inter> fst ` set acc = {}" and "''__proto__'' \<notin> set ks"
    and "sorted_wrt enum_before ks" and "\<forall>a\<in>fst ` set acc. \<forall>k\<in>set ks. enum_before a k"
  shows "fold (select_step shape) ks (Obj acc pr) =
     Obj (acc @ map (\<lambda>k. (k, JStr (''$'' @ toString (optional_path (map_of shape k))))) ks) pr"
  using assms
proof (induction ks arbitrary: acc)
  case Nil
  then show ?case by simp
next
  case (Cons k ks)
  let ?v = "JStr (''$'' @ toString (optional_path (map_of shape k)))"
  let ?acc = "acc @ [(k, ?v)]"
  from Cons.prems have fresh: "k \<notin> fst ` set acc" and "k \<noteq> ''__proto__''"
    and before: "\<forall>a\<in>fst ` set acc. enum_before a k"
    by auto
  then have step: "select_step shape k (Obj acc pr) = Obj ?acc pr"
    by (simp add: select_step_def assign_def prop_insert_last)
  from Cons.prems have "distinct ks" and "set ks \<inter> fst ` set ?acc = {}"
    and "''__proto__'' \<notin> set ks" and "sorted_wrt enum_before ks"
    and "\<forall>a\<in>fst ` set ?acc. \<forall>k\<in>set ks. enum_before a k"
    by auto
  from Cons.IH [OF this] step show ?case
    by simp
qed

lemma map_fst_keyed: "map fst (map (\<lambda>(k, c). (k, f c)) xs) = map fst xs"
  by (induction xs) auto

text \<open>
  The projection of a shape whose keys are all different, listed in enumeration order,
  and none of them \<open>__proto__\<close>.
\<close>

lemma select_enum:
  assumes "distinct (map fst shape)" and "sorted_wrt enum_before (map fst shape)"
    and "''__proto__'' \<notin> fst ` set shape"
  shows "select shape =
     JObj (map (\<lambda>(k, c). (k, JStr (''$'' @ toString (optional_path (Some c))))) shape)"
proof -
  let ?g = "\<lambda>k. (k, JStr (''$'' @ toString (optional_path (map_of shape k))) :: 'a jval)"
  let ?h = "\<lambda>(k, c). (k, JStr (''$'' @ toString (optional_path (Some c))) :: 'a jval)"
  from assms(1) have "map_of shape k = Some c" if "(k, c) \<in> set shape" for k c
    using that by simp
  then have "?g (fst x) = ?h x" if "x \<in> set shape" for x
    using that by (cases x) simp
  then have "map (\<lambda>x. ?g (fst x)) shape = map ?h shape"
    by (rule map_cong [OF refl])
  moreover have "map ?g (map fst shape) = map (\<lambda>x. ?g (fst x)) shape"
    by (simp only: map_map comp_def)
  moreover have "fold (select_step shape) (map fst shape) (Obj [] ObjectPrototype) =
      Obj ([] @ map ?g (map fst shape)) ObjectPrototype"
    by (rule select_fold_enum) (use assms in simp_all)
  then have "select shape = JObj (map ?g (map fst shape))"
    unfolding select_def empty_obj_def by (simp only: append_Nil obj.sel)
  ultimately show ?thesis
    by (simp only:)
qed

text \<open>
  An own key \<open>__proto__\<close> of the shape is enumerated, but the assignment to the projection
  reaches the inherited setter, which drops the string: the key is not in the result.
\<close>

lemma select_proto_key:
  "select [(''__proto__'', Some (column ''a'')), (''y'', Some (column ''b''))]
     = (JObj [(''y'', JStr ''$b'')] :: int jval)"
  "select [(''__proto__'', None)] = (JObj [] :: int jval)"
  by (simp_all add: select_def select_step_def column_def object_defs)



text \<open>
  Claim C7 says that \<open>select\<close> fails when the column of a key is missing or has no path.
  It does not: for \<open>{x: undefined}\<close> and for \<open>{x: {}}\<close> it returns \<open>{x: "$undefined"}\<close>.
\<close>

theorem select_undefined_counterexample:
  "select [(''x'', None)] = (JObj [(''x'', JStr ''$undefined'')] :: int jval)
   \<and> select [(''x'', Some (Column None))] = (JObj [(''x'', JStr ''$undefined'')] :: int jval)"
  by (simp add: select_def select_step_def object_defs)

text \<open>
  Claim C7, as the code has it. For every shape (its keys all different, listed in
  enumeration order, none of them \<open>__proto__\<close>) and every key of it whose column is
  undefined or has an undefined path, \<open>select\<close> returns a document with the keys of the
  shape in which that key is mapped to the string \<open>"$undefined"\<close>.
\<close>

theorem select_undefined_placeholder:
  assumes "distinct (map fst shape)" and "sorted_wrt enum_before (map fst shape)"
    and "''__proto__'' \<notin> fst ` set shape"
    and "(k, c) \<in> set shape" and "c = None \<or> c = Some (Column None)"
  shows "\<exists>kvs. select shape = JObj kvs \<and> map fst kvs = map fst shape
     \<and> map_of kvs k = Some (JStr ''$undefined'')"
proof -
  let ?f = "\<lambda>(k, c). (k, JStr (''$'' @ toString (optional_path (Some c))))"
  have keys: "map fst (map ?f shape) = map fst shape"
    by (rule map_fst_keyed)
  from assms(1) have d: "distinct (map fst (map ?f shape))"
    by (simp only: keys)
  from assms(4) have "?f (k, c) \<in> set (map ?f shape)"
    by (simp only: set_map) (rule imageI)
  with assms(5) have "(k, JStr ''$undefined'') \<in> set (map ?f shape)"
    by auto
  with d have "map_of (map ?f shape) k = Some (JStr ''$undefined'')"
    by (rule map_of_is_SomeI)
  with select_enum [OF assms(1,2,3)] keys show ?thesis
    by blast
qed

theorem select_undefined_placeholder_witness:
  "\<exists>kvs. select [(''x'', Some (column ''a'')), (''y'', None)] = (JObj kvs :: int jval)
     \<and> map fst kvs = [''x'', ''y''] \<and> map_of kvs ''y'' = Some (JStr ''$undefined'')"
proof -
  have d: "distinct (map fst [(''x'', Some (column ''a'')), (''y'', None)])"
    by simp
  have s: "sorted_wrt enum_before (map fst [(''x'', Some (column ''a'')), (''y'', None)])"
    by (simp add: enum_before_def array_index_def digit_def)
  have p: "''__proto__'' \<notin> fst ` set [(''x'', Some (column ''a'')), (''y'', None)]"
    by simp
  have m: "(''y'', None) \<in> set [(''x'', Some (column ''a'')), (''y'', None)]"
    by simp
  have c: "(None :: column option) = None \<or> None = Some (Column None)"
    by simp
  from select_undefined_placeholder [OF d s p m c] show ?thesis
    by simp
qed

section \<open>Properties of the path accessor\<close>

lemma get_path: "closure_path (get a key) = (if closure_path a \<noteq> [] then closure_path a @ ''.'' @ key else key)"
  by (cases a) (simp add: make_def)

lemma foldl_get_nonempty:
  "closure_path a \<noteq> [] \<Longrightarrow>
   closure_path (foldl get a ks) = closure_path a @ concat (map (\<lambda>x. ''.'' @ x) ks)"
  by (induction ks arbitrary: a) (simp_all add: get_path)

lemma foldl_get_path:
  "closure_path (foldl get a ks) =
     foldl (\<lambda>p key. if p \<noteq> [] then p @ ''.'' @ key else key) (closure_path a) ks"
  by (induction ks arbitrary: a) (simp_all add: get_path)

text \<open>
  Claim C8. An access with the key \<open>key\<close> on an accessor of path \<open>p\<close> gives an accessor
  of path \<open>p + "." + key\<close> when \<open>p\<close> is not empty, and of path \<open>key\<close> when it is; so does
  every access of a sequence, and a sequence of accesses from the root whose first key is
  not empty gives the keys joined by dots; \<open>accessor.address.city\<close> carries the path
  \<open>address.city\<close>. Accessors are values and \<open>get\<close> assigns to nothing, so the parent of
  an access is what it was and its path can be read again.
\<close>

theorem get_derives_path:
  "extractPath (get a key) = (if extractPath a \<noteq> [] then extractPath a @ ''.'' @ key else key)
   \<and> extractPath (foldl get a ks) =
       foldl (\<lambda>p key. if p \<noteq> [] then p @ ''.'' @ key else key) (extractPath a) ks
   \<and> (k \<noteq> [] \<longrightarrow>
        extractPath (foldl get defineSchema (k # ks)) = k @ concat (map (\<lambda>x. ''.'' @ x) ks))
   \<and> extractPath (get (get defineSchema ''address'') ''city'') = ''address.city''"
proof (intro conjI impI)
  show "extractPath (get a key) = (if extractPath a \<noteq> [] then extractPath a @ ''.'' @ key else key)"
    by (simp add: extractPath_def get_path)
next
  show "extractPath (foldl get a ks) =
      foldl (\<lambda>p key. if p \<noteq> [] then p @ ''.'' @ key else key) (extractPath a) ks"
    unfolding extractPath_def by (rule foldl_get_path)
next
  assume "k \<noteq> []"
  then have "closure_path (get defineSchema k) = k"
    by (simp add: get_path defineSchema_def make_def)
  with \<open>k \<noteq> []\<close> foldl_get_nonempty [of "get defineSchema k" ks]
  show "extractPath (foldl get defineSchema (k # ks)) = k @ concat (map (\<lambda>x. ''.'' @ x) ks)"
    by (simp add: extractPath_def)
next
  show "extractPath (get (get defineSchema ''address'') ''city'') = ''address.city''"
    by (simp add: extractPath_def get_path defineSchema_def make_def)
qed

theorem get_derives_path_witness:
  "''name'' \<noteq> [] \<and> extractPath (foldl get defineSchema [''name'', ''first'']) = ''name.first''"
  using get_derives_path [of defineSchema "''x''" "[''first'']" "''name''"]
  by simp

end
